theory Spec2Isabelle
  imports
    Main
    "HOL-Library.AList"
    "HOL-Library.Char_ord"
    "HOL-Library.List_Lexorder"
    "HOL-Library.Product_Lexorder"
begin

section \<open>The group counter of \<^verbatim>\<open>parse_csv.py\<close>\<close>

text \<open>
  The script opens one fixed CSV file, iterates it with \<^verbatim>\<open>csv.DictReader\<close>, tallies the
  value of the \<^verbatim>\<open>group\<close> column in the dictionary \<^verbatim>\<open>groups\<close>, and afterwards prints
  \<^verbatim>\<open>Groups found:\<close> and one line per entry of \<^verbatim>\<open>sorted(groups.items())\<close>.

  The tokenizer \<^verbatim>\<open>csv.reader\<close> is a primitive of the standard library. Its result is the
  input of the model: the sequence of rows it yields (each a list of strings, a blank line
  being the empty list), where an item may instead be the point at which the reader raises
  \<^verbatim>\<open>csv.Error\<close>. A file that cannot be opened is the input \<open>None\<close>.

  A string is the list of its UTF-8 bytes: comparing byte lists lexicographically orders
  strings as Python orders them, by code point.
\<close>

subsection \<open>Data\<close>

datatype error =
    FileAccessError    \<comment> \<open>\<^verbatim>\<open>open\<close> raises \<^verbatim>\<open>OSError\<close>\<close>
  | CsvError           \<comment> \<open>\<^verbatim>\<open>csv.reader\<close> raises \<^verbatim>\<open>csv.Error\<close>\<close>
  | KeyError           \<comment> \<open>\<^verbatim>\<open>row['group']\<close> on a row without that key\<close>
  | UnhashableKey      \<comment> \<open>\<^verbatim>\<open>TypeError\<close>: a list used as a dictionary key\<close>
  | UnorderableKeys    \<comment> \<open>\<^verbatim>\<open>TypeError\<close>: \<^verbatim>\<open>sorted\<close> compares \<^verbatim>\<open>None\<close> with a string\<close>

datatype reader_item = Fields "string list" | Malformed

text \<open>The values a \<^verbatim>\<open>DictReader\<close> row holds: a field's text, \<^verbatim>\<open>restval = None\<close> for a
  missing field, and the list of surplus fields stored under \<^verbatim>\<open>restkey = None\<close>.\<close>

datatype pyval = PStr string | PNone | PList "string list"

text \<open>Python dictionaries keep insertion order; they are association lists with distinct
  keys, written by \<^const>\<open>AList.update\<close> (replace in place, or append). The key \<open>None\<close> is
  Python's \<^verbatim>\<open>None\<close>.\<close>

type_synonym row_dict = "(string option \<times> pyval) list"

type_synonym tally = "(string option \<times> int) list"

subsection \<open>\<^verbatim>\<open>csv.DictReader.__next__\<close>\<close>

definition dict_zip :: "string list \<Rightarrow> string list \<Rightarrow> row_dict" where
  \<comment> \<open>\<^verbatim>\<open>dict(zip(self.fieldnames, row))\<close>: a later duplicate of a name overwrites\<close>
  "dict_zip fieldnames row =
     fold (\<lambda>(k, v). AList.update (Some k) (PStr v)) (zip fieldnames row) []"

definition dict_row :: "string list \<Rightarrow> string list \<Rightarrow> row_dict" where
  "dict_row fieldnames row =
     (let d = dict_zip fieldnames row;
          lf = length fieldnames;
          lr = length row
      in if lf < lr then AList.update None (PList (drop lf row)) d
         else if lf > lr then fold (\<lambda>key. AList.update (Some key) PNone) (drop lr fieldnames) d
         else d)"

definition getitem :: "row_dict \<Rightarrow> string \<Rightarrow> error + pyval" where
  \<comment> \<open>\<^verbatim>\<open>row[key]\<close>\<close>
  "getitem d key = (case map_of d (Some key) of None \<Rightarrow> Inl KeyError | Some v \<Rightarrow> Inr v)"

subsection \<open>The tally\<close>

fun hash_key :: "pyval \<Rightarrow> error + string option" where
  \<comment> \<open>a dictionary key has to be hashable\<close>
  "hash_key (PStr s) = Inr (Some s)"
| "hash_key PNone = Inr None"
| "hash_key (PList xs) = Inl UnhashableKey"

definition row_group :: "string list \<Rightarrow> string list \<Rightarrow> error + string option" where
  \<comment> \<open>\<^verbatim>\<open>group = row['group']\<close>, as the key it is used as\<close>
  "row_group fieldnames row =
     (case getitem (dict_row fieldnames row) ''group'' of
        Inl e \<Rightarrow> Inl e
      | Inr v \<Rightarrow> hash_key v)"

definition tally_row :: "string option \<Rightarrow> tally \<Rightarrow> tally" where
  \<comment> \<open>\<^verbatim>\<open>if group in groups: groups[group] += 1 else: groups[group] = 1\<close>\<close>
  "tally_row grp groups =
     (case map_of groups grp of
        Some c \<Rightarrow> AList.update grp (c + 1) groups
      | None \<Rightarrow> AList.update grp 1 groups)"

fun for_rows :: "string list \<Rightarrow> reader_item list \<Rightarrow> tally \<Rightarrow> error + tally" where
  \<comment> \<open>\<^verbatim>\<open>for row in reader\<close>: blank rows are skipped by \<^verbatim>\<open>DictReader\<close>\<close>
  "for_rows fieldnames [] groups = Inr groups"
| "for_rows fieldnames (Malformed # rest) groups = Inl CsvError"
| "for_rows fieldnames (Fields row # rest) groups =
     (if row = [] then for_rows fieldnames rest groups
      else case row_group fieldnames row of
             Inl e \<Rightarrow> Inl e
           | Inr grp \<Rightarrow> for_rows fieldnames rest (tally_row grp groups))"

definition read_groups :: "reader_item list \<Rightarrow> error + tally" where
  \<comment> \<open>the body of the \<^verbatim>\<open>with\<close> block: the first row the reader yields is the header;
      an empty file has no header and no rows\<close>
  "read_groups items =
     (case items of
        [] \<Rightarrow> Inr []
      | Malformed # rest \<Rightarrow> Inl CsvError
      | Fields fieldnames # rest \<Rightarrow> for_rows fieldnames rest [])"

subsection \<open>The report\<close>

definition digit_char :: "nat \<Rightarrow> char" where
  "digit_char d = ''0123456789'' ! d"

fun str_nat :: "nat \<Rightarrow> string" where
  "str_nat n = (if n < 10 then [digit_char n] else str_nat (n div 10) @ [digit_char (n mod 10)])"

declare str_nat.simps [simp del]

definition str_int :: "int \<Rightarrow> string" where
  "str_int i = (if i < 0 then CHR ''-'' # str_nat (nat (- i)) else str_nat (nat i))"

fun str_key :: "string option \<Rightarrow> string" where
  "str_key None = ''None''"
| "str_key (Some s) = s"

fun format_line :: "string option \<times> int \<Rightarrow> string" where
  \<comment> \<open>\<^verbatim>\<open>f'- {group}: {count} fields'\<close>\<close>
  "format_line (grp, cnt) = ''- '' @ str_key grp @ '': '' @ str_int cnt @ '' fields''"

fun str_items :: "tally \<Rightarrow> (string \<times> int) list option" where
  \<comment> \<open>the items when every key is a string\<close>
  "str_items [] = Some []"
| "str_items ((None, c) # rest) = None"
| "str_items ((Some s, c) # rest) = map_option ((#) (s, c)) (str_items rest)"

definition sorted_items :: "tally \<Rightarrow> error + tally" where
  \<comment> \<open>\<^verbatim>\<open>sorted(groups.items())\<close>. The keys of a dictionary are distinct, so two items are
      compared by their keys; strings compare lexicographically, \<^verbatim>\<open>None\<close> compares with
      nothing, and a list of fewer than two items is returned without a comparison.\<close>
  "sorted_items items =
     (if length items \<le> 1 then Inr items
      else case str_items items of
             None \<Rightarrow> Inl UnorderableKeys
           | Some xs \<Rightarrow> Inr (map (\<lambda>(s, c). (Some s, c)) (sort xs)))"

definition report :: "tally \<Rightarrow> string list \<times> error option" where
  \<comment> \<open>the lines printed, and the exception that ended the printing, if any\<close>
  "report groups =
     (case sorted_items groups of
        Inl e \<Rightarrow> ([''Groups found:''], Some e)
      | Inr its \<Rightarrow> (''Groups found:'' # map format_line its, None))"

subsection \<open>The script\<close>

definition run :: "reader_item list option \<Rightarrow> string list \<times> error option" where
  "run file =
     (case file of
        None \<Rightarrow> ([], Some FileAccessError)
      | Some items \<Rightarrow>
          (case read_groups items of
             Inl e \<Rightarrow> ([], Some e)
           | Inr groups \<Rightarrow> report groups))"

record world =
  files :: "string \<rightharpoonup> reader_item list"
  stdout :: "string list"

definition csv_path :: string where
  "csv_path = ''attached_assets/S&P_KY3P_Security_Assessment_4Groups_Final.csv''"

definition script :: "world \<Rightarrow> world \<times> error option" where
  \<comment> \<open>the file is opened for reading only; the lines go to standard output\<close>
  "script w =
     (let (out, res) = run (files w csv_path)
      in (w\<lparr>stdout := stdout w @ out\<rparr>, res))"

subsection \<open>What the rows hold\<close>

text \<open>The rows \<^verbatim>\<open>DictReader\<close> hands to the loop body: the reader's rows that are not blank,
  up to the point where the reader raises, if it does.\<close>

fun data_rows :: "reader_item list \<Rightarrow> string list list" where
  "data_rows [] = []"
| "data_rows (Malformed # rest) = []"
| "data_rows (Fields row # rest) = (if row = [] then data_rows rest else row # data_rows rest)"

definition data_groups :: "reader_item list \<Rightarrow> (error + string option) list" where
  \<comment> \<open>what \<^verbatim>\<open>row['group']\<close> gives for each data row of a file, in order\<close>
  "data_groups items =
     (case items of
        Fields fieldnames # rest \<Rightarrow> map (row_group fieldnames) (data_rows rest)
      | _ \<Rightarrow> [])"

definition has_nonempty_group :: "string list \<Rightarrow> string list \<Rightarrow> bool" where
  \<comment> \<open>the row has a \<^verbatim>\<open>group\<close> field, and its text is not empty\<close>
  "has_nonempty_group fieldnames row =
     (case getitem (dict_row fieldnames row) ''group'' of
        Inr (PStr s) \<Rightarrow> s \<noteq> []
      | _ \<Rightarrow> False)"

section \<open>The tally\<close>

lemma map_of_tally_row:
  "map_of (tally_row k g) = (map_of g)(k \<mapsto> (case map_of g k of None \<Rightarrow> 1 | Some c \<Rightarrow> c + 1))"
  by (simp add: tally_row_def update_conv' split: option.splits)

lemma distinct_tally_row: "distinct (map fst g) \<Longrightarrow> distinct (map fst (tally_row k g))"
  by (simp add: tally_row_def distinct_update split: option.splits)

lemma sum_list_update:
  "sum_list (map snd (AList.update k v g)) =
     (case map_of g k of None \<Rightarrow> sum_list (map snd g) + v | Some c \<Rightarrow> sum_list (map snd g) - c + (v::int))"
  by (induction g) (auto split: option.splits)

lemma sum_list_tally_row: "sum_list (map snd (tally_row k g)) = sum_list (map snd g) + 1"
  by (simp add: tally_row_def sum_list_update split: option.splits)

lemma set_update_subset: "set (AList.update k v g) \<subseteq> insert (k, v) (set g)"
  by (induction g) auto

lemma positive_tally_row:
  assumes "\<forall>p \<in> set g. 1 \<le> snd p"
  shows "\<forall>p \<in> set (tally_row k g). (1::int) \<le> snd p"
proof (cases "map_of g k")
  case None
  then have "set (tally_row k g) \<subseteq> insert (k, 1) (set g)"
    by (simp add: tally_row_def set_update_subset)
  with assms show ?thesis by auto
next
  case (Some c)
  then have "(k, c) \<in> set g" by (rule map_of_SomeD)
  with assms have "1 \<le> c" by auto
  moreover from Some have "set (tally_row k g) \<subseteq> insert (k, c + 1) (set g)"
    by (simp add: tally_row_def set_update_subset)
  ultimately show ?thesis using assms by auto
qed

lemma for_rows_fold:
  "for_rows h items g = Inr g' \<Longrightarrow>
     \<exists>ks. map (row_group h) (data_rows items) = map Inr ks \<and> g' = fold tally_row ks g"
proof (induction h items g rule: for_rows.induct)
  case (1 h g)
  then show ?case by simp
next
  case (2 h rest g)
  then show ?case by simp
next
  case (3 h row rest g)
  show ?case
  proof (cases "row = []")
    case True
    with 3 show ?thesis by simp
  next
    case False
    with "3.prems" obtain k where k: "row_group h row = Inr k"
      and rest: "for_rows h rest (tally_row k g) = Inr g'"
      by (auto split: sum.splits)
    from "3.IH"(2) [OF False k rest] obtain ks
      where "map (row_group h) (data_rows rest) = map Inr ks" "g' = fold tally_row ks (tally_row k g)"
      by blast
    with False k have "map (row_group h) (data_rows (Fields row # rest)) = map Inr (k # ks) \<and>
        g' = fold tally_row (k # ks) g"
      by simp
    then show ?thesis by blast
  qed
qed

lemma fold_tally_distinct:
  "distinct (map fst g) \<Longrightarrow> distinct (map fst (fold tally_row ks g))"
  by (induction ks arbitrary: g) (simp_all add: distinct_tally_row)

lemma fold_tally_sum:
  "sum_list (map snd (fold tally_row ks g)) = sum_list (map snd g) + int (length ks)"
  by (induction ks arbitrary: g) (simp_all add: sum_list_tally_row)

lemma fold_tally_positive:
  "\<forall>p \<in> set g. 1 \<le> snd p \<Longrightarrow> \<forall>p \<in> set (fold tally_row ks g). (1::int) \<le> snd p"
proof (induction ks arbitrary: g)
  case Nil
  then show ?case by simp
next
  case (Cons k ks)
  have "\<forall>p \<in> set (tally_row k g). 1 \<le> snd p"
    using Cons.prems by (rule positive_tally_row)
  then have "\<forall>p \<in> set (fold tally_row ks (tally_row k g)). 1 \<le> snd p"
    by (rule Cons.IH)
  then show ?case by simp
qed

lemma fold_tally_map_of:
  "map_of (fold tally_row ks g) k =
     (if k \<in> set ks
      then Some ((case map_of g k of None \<Rightarrow> 0 | Some c \<Rightarrow> c) + int (count_list ks k))
      else map_of g k)"
  by (induction ks arbitrary: g) (auto simp: map_of_tally_row split: option.splits)

section \<open>Sorting the items\<close>

lemma str_items_Some: "str_items g = Some xs \<Longrightarrow> g = map (\<lambda>(s, c). (Some s, c)) xs"
  by (induction g arbitrary: xs rule: str_items.induct) auto

lemma str_items_None: "str_items g = None \<Longrightarrow> None \<in> fst ` set g"
  by (induction g rule: str_items.induct) (auto simp: image_iff)

lemma sum_list_insort:
  "sum_list (map f (insort_key k x xs)) = f x + (sum_list (map f xs) :: int)"
  by (induction xs) auto

lemma sum_list_sort: "sum_list (map f (sort_key k xs)) = (sum_list (map f xs) :: int)"
  by (induction xs) (simp_all add: sum_list_insort)

lemma sorted_fst: "sorted (xs :: (string \<times> int) list) \<Longrightarrow> sorted (map fst xs)"
  by (induction xs) (auto simp: less_eq_prod_def)

lemma sort_keys_ascending:
  assumes "distinct (map fst (xs :: (string \<times> int) list))"
  shows "sorted_wrt (<) (map fst (sort xs))"
proof -
  have "distinct xs" and "inj_on fst (set xs)"
    using assms by (simp_all add: distinct_map)
  then have "distinct (map fst (sort xs))"
    by (simp add: distinct_map)
  moreover have "sorted (map fst (sort xs))"
    by (rule sorted_fst) simp
  ultimately show ?thesis
    by (simp add: strict_sorted_iff)
qed

lemma sorted_items_set: "sorted_items g = Inr its \<Longrightarrow> set its = set g"
  by (auto simp: sorted_items_def split: if_splits option.splits dest!: str_items_Some)

lemma sorted_items_sum:
  "sorted_items g = Inr its \<Longrightarrow> sum_list (map snd its) = sum_list (map snd g)"
proof -
  have snd_some: "snd \<circ> (\<lambda>(s, c). (Some s, c)) = (snd :: string \<times> int \<Rightarrow> int)"
    by (rule ext) (simp add: case_prod_beta)
  assume "sorted_items g = Inr its"
  then show ?thesis
    by (auto simp: sorted_items_def snd_some sum_list_sort split: if_splits option.splits
        dest!: str_items_Some)
qed

lemma sorted_items_keys:
  assumes "sorted_items g = Inr its" and "distinct (map fst g)"
  shows "distinct (map fst its) \<and> sorted_wrt (<) (map (str_key \<circ> fst) its)"
proof (cases "length g \<le> 1")
  case True
  with assms have "its = g" by (simp add: sorted_items_def)
  moreover from True have "sorted_wrt (<) (map (str_key \<circ> fst) g)"
    by (cases g) (simp_all add: Suc_le_eq)
  ultimately show ?thesis using assms by simp
next
  case False
  with assms(1) obtain xs where xs: "str_items g = Some xs"
    and its: "its = map (\<lambda>(s, c). (Some s, c)) (sort xs)"
    by (auto simp: sorted_items_def split: option.splits)
  have fst_some: "fst \<circ> (\<lambda>(s, c). (Some s, c)) = Some \<circ> (fst :: string \<times> int \<Rightarrow> string)"
    by (rule ext) (simp add: case_prod_beta)
  have key_some: "str_key \<circ> fst \<circ> (\<lambda>(s, c). (Some s, c)) = (fst :: string \<times> int \<Rightarrow> string)"
    by (rule ext) (simp add: case_prod_beta)
  from xs have "g = map (\<lambda>(s, c). (Some s, c)) xs" by (rule str_items_Some)
  with assms(2) have "distinct (map (Some \<circ> fst) xs)" by (simp add: fst_some)
  then have d: "distinct (map fst xs)" by (simp add: distinct_map comp_def inj_on_def)
  then have asc: "sorted_wrt (<) (map fst (sort xs))" by (rule sort_keys_ascending)
  then have "distinct (map fst (sort xs))" by (simp add: strict_sorted_iff)
  then have "distinct (map (Some \<circ> fst) (sort xs))"
    by (simp add: distinct_map comp_def inj_on_def)
  with asc show ?thesis by (simp add: its fst_some key_some)
qed

lemma sorted_items_fails:
  "sorted_items g = Inl e \<Longrightarrow> e = UnorderableKeys \<and> None \<in> fst ` set g \<and> 2 \<le> length g"
  by (auto simp: sorted_items_def split: if_splits option.splits dest: str_items_None)

section \<open>The rows of \<^verbatim>\<open>DictReader\<close>\<close>

lemma map_of_fold_zip:
  "map_of (fold (\<lambda>(k, v). AList.update (Some k) (PStr v)) ps d) (Some key) =
     (case map_of (rev ps) key of None \<Rightarrow> map_of d (Some key) | Some s \<Rightarrow> Some (PStr s))"
  by (induction ps arbitrary: d)
     (auto simp: update_conv' map_add_def split: option.splits)

lemma map_of_dict_zip:
  "map_of (dict_zip h r) (Some key) = map_option PStr (map_of (rev (zip h r)) key)"
  by (simp add: dict_zip_def map_of_fold_zip split: option.splits)

lemma map_of_fold_restval:
  "map_of (fold (\<lambda>key. AList.update (Some key) PNone) keys d) (Some key) =
     (if key \<in> set keys then Some PNone else map_of d (Some key))"
  by (induction keys arbitrary: d) (auto simp: update_conv')

lemma map_of_dict_row:
  "map_of (dict_row h r) (Some key) =
     (if key \<in> set (drop (length r) h) then Some PNone
      else map_option PStr (map_of (rev (zip h r)) key))"
  by (simp add: dict_row_def Let_def update_conv' map_of_fold_restval map_of_dict_zip)

lemma row_group_eq:
  "row_group h r =
     (if ''group'' \<in> set (drop (length r) h) then Inr None
      else case map_of (rev (zip h r)) ''group'' of
             None \<Rightarrow> Inl KeyError
           | Some s \<Rightarrow> Inr (Some s))"
  by (simp add: row_group_def getitem_def map_of_dict_row split: option.splits)

lemma row_group_no_column: "''group'' \<notin> set h \<Longrightarrow> row_group h r = Inl KeyError"
proof -
  assume a: "''group'' \<notin> set h"
  then have "''group'' \<notin> set (drop (length r) h)"
    by (auto dest: in_set_dropD)
  moreover from a have "''group'' \<notin> fst ` set (rev (zip h r))"
    by (auto dest: set_zip_leftD)
  then have "map_of (rev (zip h r)) ''group'' = None"
    by (simp add: map_of_eq_None_iff)
  ultimately show ?thesis by (simp add: row_group_eq)
qed

lemma row_group_column: 
  assumes "''group'' \<in> set h"
  shows "\<exists>k. row_group h r = Inr k"
proof (cases "''group'' \<in> set (drop (length r) h)")
  case True
  then show ?thesis by (simp add: row_group_eq)
next
  case False
  have "set h = set (take (length r) h) \<union> set (drop (length r) h)"
    by (metis append_take_drop_id set_append)
  with assms False have "''group'' \<in> set (take (length r) h)" by auto
  also have "take (length r) h = map fst (zip h r)"
    by (simp add: map_fst_zip_take min_def)
  finally have "''group'' \<in> fst ` set (rev (zip h r))" by simp
  then have "map_of (rev (zip h r)) ''group'' \<noteq> None"
    by (simp add: map_of_eq_None_iff)
  with False show ?thesis by (auto simp: row_group_eq)
qed

lemma row_group_grid:
  assumes "''group'' \<in> set h" and "length r = length h"
  shows "\<exists>s. row_group h r = Inr (Some s)"
proof -
  from assms(2) have "map fst (zip h r) = h" by simp
  with assms(1) have "''group'' \<in> fst ` set (rev (zip h r))"
    by (metis list.set_map set_rev)
  then have "map_of (rev (zip h r)) ''group'' \<noteq> None"
    by (simp add: map_of_eq_None_iff)
  with assms(2) show ?thesis by (auto simp: row_group_eq)
qed

lemma for_rows_complete:
  "Malformed \<notin> set items \<Longrightarrow> map (row_group h) (data_rows items) = map Inr ks \<Longrightarrow>
     for_rows h items g = Inr (fold tally_row ks g)"
proof (induction h items g arbitrary: ks rule: for_rows.induct)
  case (1 h g)
  then show ?case by simp
next
  case (2 h rest g)
  then show ?case by simp
next
  case (3 h row rest g)
  show ?case
  proof (cases "row = []")
    case True
    with 3 show ?thesis by simp
  next
    case False
    with "3.prems"(2) obtain k ks' where ks: "ks = k # ks'" and k: "row_group h row = Inr k"
      and rest: "map (row_group h) (data_rows rest) = map Inr ks'"
      by (cases ks) auto
    from "3.prems"(1) have "Malformed \<notin> set rest" by simp
    with "3.IH"(2) [OF False k] rest
    have "for_rows h rest (tally_row k g) = Inr (fold tally_row ks' (tally_row k g))"
      by blast
    with False k ks show ?thesis by simp
  qed
qed

lemma for_rows_no_error_item: "for_rows h items g = Inr g' \<Longrightarrow> Malformed \<notin> set items"
  by (induction h items g rule: for_rows.induct) (auto split: if_splits sum.splits)

lemma fold_tally_keys: "fst ` set (fold tally_row ks []) = set ks"
proof -
  have "dom (map_of (fold tally_row ks [])) = set ks"
    by (auto simp: fold_tally_map_of dom_def)
  then show ?thesis by (simp add: dom_map_of_conv_image_fst)
qed

lemma sorted_items_succeeds: "None \<notin> fst ` set g \<Longrightarrow> \<exists>its. sorted_items g = Inr its"
  by (cases "str_items g") (auto simp: sorted_items_def dest: str_items_None)

lemma data_rows_map_Fields: "data_rows (map Fields rows) = filter (\<lambda>r. r \<noteq> []) rows"
  by (induction rows) auto

section \<open>The pass over the rows\<close>

lemma read_groups_fold:
  assumes "read_groups items = Inr g"
  shows "\<exists>ks. data_groups items = map Inr ks \<and> g = fold tally_row ks []"
proof (cases items)
  case Nil
  with assms show ?thesis by (simp add: read_groups_def data_groups_def)
next
  case (Cons item rest)
  show ?thesis
  proof (cases item)
    case (Fields h)
    with Cons assms have "for_rows h rest [] = Inr g" by (simp add: read_groups_def)
    then have "\<exists>ks. map (row_group h) (data_rows rest) = map Inr ks \<and> g = fold tally_row ks []"
      by (rule for_rows_fold)
    with Cons Fields show ?thesis by (simp add: data_groups_def)
  next
    case Malformed
    with Cons assms show ?thesis by (simp add: read_groups_def)
  qed
qed

lemma run_report:
  "read_groups items = Inr g \<Longrightarrow> sorted_items g = Inr its \<Longrightarrow>
     run (Some items) = (''Groups found:'' # map format_line its, None)"
  by (simp add: run_def report_def)

lemma count_list_Inr: "count_list (map Inr ks) (Inr k) = count_list ks k"
  by (induction ks) auto

lemma grid_groups:
  "\<forall>r \<in> set rows. \<exists>s. f r = Inr (Some s) \<Longrightarrow> \<exists>ks. map f rows = map Inr ks \<and> None \<notin> set ks"
proof (induction rows)
  case Nil
  then show ?case by simp
next
  case (Cons r rows)
  then obtain s ks where "f r = Inr (Some s)" "map f rows = map Inr ks" "None \<notin> set ks"
    by auto
  then have "map f (r # rows) = map Inr (Some s # ks) \<and> None \<notin> set (Some s # ks)"
    by simp
  then show ?case by blast
qed

lemma any_groups:
  "\<forall>r \<in> set rows. \<exists>k. f r = Inr k \<Longrightarrow> \<exists>ks. map f rows = map Inr ks"
proof (induction rows)
  case Nil
  then show ?case by simp
next
  case (Cons r rows)
  then obtain k ks where "f r = Inr k" "map f rows = map Inr ks"
    by auto
  then have "map f (r # rows) = map Inr (k # ks)"
    by simp
  then show ?case by blast
qed

lemma for_rows_append:
  "for_rows h (xs @ ys) g = (case for_rows h xs g of Inl e \<Rightarrow> Inl e | Inr g' \<Rightarrow> for_rows h ys g')"
  by (induction h xs g rule: for_rows.induct) (auto split: sum.splits)

lemma for_rows_no_column:
  "''group'' \<notin> set h \<Longrightarrow>
     for_rows h (map Fields rows) g = (if \<exists>r \<in> set rows. r \<noteq> [] then Inl KeyError else Inr g)"
  by (induction rows) (simp_all add: row_group_no_column)

lemma for_rows_column:
  assumes "''group'' \<in> set h"
  shows "\<exists>g'. for_rows h (map Fields rows) g = Inr g'"
proof -
  have "\<forall>r \<in> set (data_rows (map Fields rows)). \<exists>k. row_group h r = Inr k"
    using assms by (simp add: row_group_column)
  then obtain ks where "map (row_group h) (data_rows (map Fields rows)) = map Inr ks"
    using any_groups by blast
  moreover have "Malformed \<notin> set (map Fields rows)" by auto
  ultimately have "for_rows h (map Fields rows) g = Inr (fold tally_row ks g)"
    by (simp add: for_rows_complete)
  then show ?thesis by blast
qed

lemma report_error: "snd (report g) = Some e \<Longrightarrow> e = UnorderableKeys"
  by (auto simp: report_def split: sum.splits dest: sorted_items_fails)


section \<open>The claims\<close>

subsection \<open>C1: the printed counts add up to the data rows\<close>

text \<open>
  C1, as stated: for a well-formed input with a \<^verbatim>\<open>group\<close> column, the printed counts add up
  to the number of data rows whose \<^verbatim>\<open>group\<close> field is not empty. The file with header
  \<^verbatim>\<open>group\<close> and the single data row holding the empty string refutes it: the loop has no
  filter, the row is counted under the empty key, the printed total is 1 and no row has a
  non-empty group.
\<close>

theorem nonempty_rows_sum_counterexample:
  "run (Some [Fields [''group''], Fields ['''']]) =
     (''Groups found:'' # map format_line [(Some '''', 1)], None) \<and>
   sum_list (map snd [(Some '''', 1::int)]) \<noteq>
     int (length (filter (has_nonempty_group [''group'']) [['''']]))"
  by code_simp

text \<open>
  C1, amended: when the header has a \<^verbatim>\<open>group\<close> column and every data row has as many
  fields as the header, the run succeeds and the counts it prints add up to the number of
  data rows, the rows with an empty \<^verbatim>\<open>group\<close> field included.
\<close>

theorem counts_sum_to_data_rows:
  assumes "''group'' \<in> set h" and "\<forall>r \<in> set rows. length r = length h"
  shows "\<exists>g its. read_groups (Fields h # map Fields rows) = Inr g \<and> sorted_items g = Inr its \<and>
           run (Some (Fields h # map Fields rows)) = (''Groups found:'' # map format_line its, None) \<and>
           sum_list (map snd its) = int (length rows)"
proof -
  from assms(1) have "h \<noteq> []" by auto
  with assms(2) have "\<forall>r \<in> set rows. r \<noteq> []" by auto
  then have rows: "data_rows (map Fields rows) = rows"
    by (simp add: data_rows_map_Fields filter_id_conv)
  have "\<forall>r \<in> set rows. \<exists>s. row_group h r = Inr (Some s)"
    using assms by (simp add: row_group_grid)
  then obtain ks where ks: "map (row_group h) rows = map Inr ks" and strs: "None \<notin> set ks"
    using grid_groups by blast
  define g where "g = fold tally_row ks []"
  have "Malformed \<notin> set (map Fields rows)" by auto
  with ks rows have pass: "read_groups (Fields h # map Fields rows) = Inr g"
    by (simp add: read_groups_def g_def for_rows_complete)
  from strs have "None \<notin> fst ` set g" by (simp add: g_def fold_tally_keys)
  then obtain its where its: "sorted_items g = Inr its"
    using sorted_items_succeeds by blast
  have "length ks = length rows"
    using ks by (metis length_map)
  then have "sum_list (map snd its) = int (length rows)"
    using its by (simp add: sorted_items_sum g_def fold_tally_sum)
  with pass its run_report [OF pass its] show ?thesis by blast
qed

text \<open>C1, the amended statement at a file of two rows, one of them with an empty group.\<close>

theorem counts_sum_to_data_rows_witness:
  "\<exists>g its. read_groups (Fields [''group'', ''id''] # map Fields [[''A'', ''1''], ['''', ''2'']]) = Inr g \<and>
     sorted_items g = Inr its \<and>
     run (Some (Fields [''group'', ''id''] # map Fields [[''A'', ''1''], ['''', ''2'']])) =
       (''Groups found:'' # map format_line its, None) \<and>
     sum_list (map snd its) = int (length [[''A'', ''1''], ['''', ''2'']])"
  by (rule counts_sum_to_data_rows) simp_all

subsection \<open>C2: the missing \<^verbatim>\<open>group\<close> field\<close>

text \<open>
  C2, as stated: the run fails with a missing-field error, printing no group line, whenever
  the header lacks a \<^verbatim>\<open>group\<close> column or a data row lacks a \<^verbatim>\<open>group\<close> field. Two files
  refute it. A header without the column and no data row: the loop body never runs, and the
  run prints the heading and succeeds. A header with the column and a row too short to reach
  it: \<^verbatim>\<open>DictReader\<close> stores \<^verbatim>\<open>None\<close> for the missing field, and the row is counted.
\<close>

theorem missing_field_counterexample:
  "run (Some [Fields [''name'']]) = ([''Groups found:''], None) \<and>
   run (Some [Fields [''name'', ''group''], Fields [''x'']]) =
     ([''Groups found:'', ''- None: 1 fields''], None)"
  by code_simp

text \<open>
  C2, amended: when the header lacks a \<^verbatim>\<open>group\<close> column, the run fails with
  \<^verbatim>\<open>KeyError\<close> and prints nothing if a data row that is not blank follows the header, and
  otherwise prints the heading alone and succeeds. When the header has the column, no run
  ends with \<^verbatim>\<open>KeyError\<close>, whatever the rows.
\<close>

theorem key_error_iff_no_column:
  "(''group'' \<notin> set h \<longrightarrow>
      run (Some (Fields h # map Fields rows)) =
        (if \<exists>r \<in> set rows. r \<noteq> [] then ([], Some KeyError) else ([''Groups found:''], None))) \<and>
   (''group'' \<in> set h \<longrightarrow> snd (run (Some (Fields h # map Fields rows))) \<noteq> Some KeyError)"
proof (intro conjI impI)
  assume "''group'' \<notin> set h"
  then show "run (Some (Fields h # map Fields rows)) =
      (if \<exists>r \<in> set rows. r \<noteq> [] then ([], Some KeyError) else ([''Groups found:''], None))"
    by (simp add: run_def read_groups_def for_rows_no_column report_def sorted_items_def)
next
  assume "''group'' \<in> set h"
  then obtain g where "for_rows h (map Fields rows) [] = Inr g"
    using for_rows_column by blast
  then have "run (Some (Fields h # map Fields rows)) = report g"
    by (simp add: run_def read_groups_def)
  moreover have "snd (report g) \<noteq> Some KeyError"
    using report_error by fastforce
  ultimately show "snd (run (Some (Fields h # map Fields rows))) \<noteq> Some KeyError"
    by simp
qed

text \<open>C2, the amended statement at a header without the column and at one with it.\<close>

theorem key_error_iff_no_column_witness:
  "run (Some (Fields [''name''] # map Fields [[''x'']])) = ([], Some KeyError) \<and>
   snd (run (Some (Fields [''name'', ''group''] # map Fields [[''x'']]))) \<noteq> Some KeyError"
  using key_error_iff_no_column [of "[''name'']" "[[''x'']]"]
    key_error_iff_no_column [of "[''name'', ''group'']" "[[''x'']]"]
  by simp

subsection \<open>C3: no output when the pass fails\<close>

text \<open>
  C3: if the file cannot be opened, or an error is raised while the rows are processed, the
  run ends with that error and has printed nothing: the first \<^verbatim>\<open>print\<close> comes after the
  \<^verbatim>\<open>with\<close> block.
\<close>

theorem no_output_on_failure:
  "file = None \<or> (\<exists>items e. file = Some items \<and> read_groups items = Inl e) \<Longrightarrow>
     fst (run file) = [] \<and> snd (run file) \<noteq> None"
  by (auto simp: run_def)

text \<open>C3 at a file whose header has no \<^verbatim>\<open>group\<close> column and that has one data row.\<close>

theorem no_output_on_failure_witness:
  "read_groups [Fields [''name''], Fields [''x'']] = Inl KeyError \<and>
   fst (run (Some [Fields [''name''], Fields [''x'']])) = [] \<and>
   snd (run (Some [Fields [''name''], Fields [''x'']])) \<noteq> None"
proof -
  have pass: "read_groups [Fields [''name''], Fields [''x'']] = Inl KeyError"
    by code_simp
  then have "Some [Fields [''name''], Fields [''x'']] = None \<or>
      (\<exists>items e. Some [Fields [''name''], Fields [''x'']] = Some items \<and> read_groups items = Inl e)"
    by blast
  from no_output_on_failure [OF this] pass show ?thesis by simp
qed

text \<open>
  The one error that comes later is the \<^verbatim>\<open>TypeError\<close> of \<^verbatim>\<open>sorted\<close>, when a row too short
  to reach the \<^verbatim>\<open>group\<close> column put the key \<^verbatim>\<open>None\<close> beside a string key: the pass has
  completed by then and the heading is already printed.
\<close>

lemma heading_printed_before_sort_error:
  "read_groups [Fields [''id'', ''group''], Fields [''1'', ''A''], Fields [''2'']] =
     Inr [(Some ''A'', 1), (None, 1)] \<and>
   run (Some [Fields [''id'', ''group''], Fields [''1'', ''A''], Fields [''2'']]) =
     ([''Groups found:''], Some UnorderableKeys)"
  by code_simp

subsection \<open>C4: rows whose field count differs from the header's\<close>

text \<open>
  C4, as stated: a data row whose field count does not match the header causes a failure
  that aborts the run. A file with a row that is too short and a row that is too long refutes
  it: \<^verbatim>\<open>DictReader\<close> fills the missing field with \<^verbatim>\<open>None\<close> and collects the surplus fields
  under the key \<^verbatim>\<open>None\<close>, and both rows are counted.
\<close>

theorem field_count_mismatch_counterexample:
  "run (Some [Fields [''group'', ''id''], Fields [''A''], Fields [''B'', ''1'', ''2'']]) =
     ([''Groups found:'', ''- A: 1 fields'', ''- B: 1 fields''], None)"
  by code_simp

text \<open>
  C4, amended: when the header has a \<^verbatim>\<open>group\<close> column, the pass over the rows completes
  whatever the field counts of the rows, so a mismatch is no failure; an error raised by the
  CSV reader itself is not recovered, it ends the run with that error and nothing printed.
\<close>

theorem mismatch_accepted_reader_error_propagates:
  assumes "''group'' \<in> set h"
  shows "(\<exists>g. read_groups (Fields h # map Fields rows) = Inr g) \<and>
         run (Some (Fields h # map Fields rows @ Malformed # rest)) = ([], Some CsvError)"
proof -
  from assms obtain g where g: "for_rows h (map Fields rows) [] = Inr g"
    using for_rows_column by blast
  then have "for_rows h (map Fields rows @ Malformed # rest) [] = Inl CsvError"
    by (simp add: for_rows_append)
  with g show ?thesis by (simp add: run_def read_groups_def)
qed

text \<open>C4, the amended statement at the file of the counterexample.\<close>

theorem mismatch_accepted_reader_error_propagates_witness:
  "(\<exists>g. read_groups (Fields [''group'', ''id''] # map Fields [[''A''], [''B'', ''1'', ''2'']]) = Inr g) \<and>
   run (Some (Fields [''group'', ''id''] # map Fields [[''A''], [''B'', ''1'', ''2'']] @ Malformed # []))
     = ([], Some CsvError)"
  by (rule mismatch_accepted_reader_error_propagates) simp

subsection \<open>C5: each group once, in ascending order\<close>

text \<open>
  C5: in a successful run (the pass gives the tally \<open>g\<close>, sorting it gives \<open>its\<close>) the group
  lines are the lines of \<open>its\<close>; the keys of \<open>its\<close> are distinct, they are exactly the values
  \<^verbatim>\<open>row['group']\<close> took over the data rows, and the names printed for them ascend strictly
  in lexicographic order.
\<close>

theorem groups_listed_once_ascending:
  assumes "read_groups items = Inr g" and "sorted_items g = Inr its"
  shows "run (Some items) = (''Groups found:'' # map format_line its, None) \<and>
         distinct (map fst its) \<and>
         set (map fst its) = {k. Inr k \<in> set (data_groups items)} \<and>
         sorted_wrt (<) (map (str_key \<circ> fst) its)"
proof -
  from assms(1) obtain ks where ks: "data_groups items = map Inr ks" and g: "g = fold tally_row ks []"
    using read_groups_fold by blast
  have "distinct (map fst g)" by (simp add: g fold_tally_distinct)
  with assms(2) have "distinct (map fst its) \<and> sorted_wrt (<) (map (str_key \<circ> fst) its)"
    by (rule sorted_items_keys)
  moreover have "set (map fst its) = set ks"
    using sorted_items_set [OF assms(2)] by (simp add: g fold_tally_keys)
  moreover have "set ks = {k. Inr k \<in> set (data_groups items)}"
    by (auto simp: ks)
  ultimately show ?thesis using run_report [OF assms] by simp
qed

text \<open>C5 at a file whose groups arrive as b, a, b.\<close>

theorem groups_listed_once_ascending_witness:
  "run (Some [Fields [''group''], Fields [''b''], Fields [''a''], Fields [''b'']]) =
     (''Groups found:'' # map format_line [(Some ''a'', 1), (Some ''b'', 2)], None) \<and>
   distinct (map fst [(Some ''a'', 1::int), (Some ''b'', 2)]) \<and>
   set (map fst [(Some ''a'', 1::int), (Some ''b'', 2)]) =
     {k. Inr k \<in> set (data_groups [Fields [''group''], Fields [''b''], Fields [''a''], Fields [''b'']])} \<and>
   sorted_wrt (<) (map (str_key \<circ> fst) [(Some ''a'', 1::int), (Some ''b'', 2)])"
proof -
  have pass: "read_groups [Fields [''group''], Fields [''b''], Fields [''a''], Fields [''b'']] =
      Inr [(Some ''b'', 2), (Some ''a'', 1)]"
    by code_simp
  have sort: "sorted_items [(Some ''b'', 2), (Some ''a'', 1)] = Inr [(Some ''a'', 1), (Some ''b'', 2)]"
    by code_simp
  show ?thesis by (rule groups_listed_once_ascending [OF pass sort])
qed

subsection \<open>C6: the example report\<close>

text \<open>
  C6: for any file the reader reads without error and whose data rows carry the group
  values A, B, A, C, B, A in this order (whatever the other columns), the output is the
  heading followed by the lines for A with 3, B with 2 and C with 1, in the line format
  \<^verbatim>\<open>- {group}: {count} fields\<close>.
\<close>

theorem example_report:
  assumes "Malformed \<notin> set items"
    and "data_groups items =
           map Inr [Some ''A'', Some ''B'', Some ''A'', Some ''C'', Some ''B'', Some ''A'']"
  shows "run (Some items) =
           ([''Groups found:'', ''- A: 3 fields'', ''- B: 2 fields'', ''- C: 1 fields''], None)"
proof -
  let ?ks = "[Some ''A'', Some ''B'', Some ''A'', Some ''C'', Some ''B'', Some ''A'']"
  from assms(2) obtain h rest where items: "items = Fields h # rest"
    by (cases items; cases "hd items") (auto simp: data_groups_def)
  with assms have "for_rows h rest [] = Inr (fold tally_row ?ks [])"
    by (intro for_rows_complete) (simp_all add: data_groups_def)
  then have "run (Some items) = report (fold tally_row ?ks [])"
    by (simp add: run_def read_groups_def items)
  also have "\<dots> = ([''Groups found:'', ''- A: 3 fields'', ''- B: 2 fields'', ''- C: 1 fields''], None)"
    by code_simp
  finally show ?thesis .
qed

text \<open>C6 at a file with a second column.\<close>

theorem example_report_witness:
  "run (Some [Fields [''id'', ''group''], Fields [''1'', ''A''], Fields [''2'', ''B''],
              Fields [''3'', ''A''], Fields [''4'', ''C''], Fields [''5'', ''B''],
              Fields [''6'', ''A'']]) =
     ([''Groups found:'', ''- A: 3 fields'', ''- B: 2 fields'', ''- C: 1 fields''], None)"
proof -
  let ?items = "[Fields [''id'', ''group''], Fields [''1'', ''A''], Fields [''2'', ''B''],
              Fields [''3'', ''A''], Fields [''4'', ''C''], Fields [''5'', ''B''],
              Fields [''6'', ''A'']]"
  have clean: "Malformed \<notin> set ?items" by simp
  have groups: "data_groups ?items =
      map Inr [Some ''A'', Some ''B'', Some ''A'', Some ''C'', Some ''B'', Some ''A'']"
    by code_simp
  show ?thesis by (rule example_report [OF clean groups])
qed

subsection \<open>C7: a header and nothing else\<close>

text \<open>
  C7: for a file that consists of a header row only, whatever the header, the run succeeds
  and its whole output is the line \<^verbatim>\<open>Groups found:\<close>.
\<close>

theorem header_only_report: "run (Some [Fields h]) = ([''Groups found:''], None)"
  by (simp add: run_def read_groups_def report_def sorted_items_def)

text \<open>C7 at a header of two columns.\<close>

theorem header_only_report_witness:
  "run (Some [Fields [''id'', ''group'']]) = ([''Groups found:''], None)"
  by (rule header_only_report)

subsection \<open>C8: the empty group is a group\<close>

text \<open>
  C8: in a successful run over a file with a data row whose \<^verbatim>\<open>group\<close> field is the empty
  string, the report has an item for the empty-string key, and its count is the number of
  data rows with that field empty (at least one): such rows are counted, not skipped.
\<close>

theorem empty_group_counted:
  assumes "read_groups items = Inr g" and "sorted_items g = Inr its"
    and "Inr (Some '''') \<in> set (data_groups items)"
  shows "run (Some items) = (''Groups found:'' # map format_line its, None) \<and>
         (Some '''', int (count_list (data_groups items) (Inr (Some '''')))) \<in> set its \<and>
         1 \<le> count_list (data_groups items) (Inr (Some ''''))"
proof -
  from assms(1) obtain ks where ks: "data_groups items = map Inr ks" and g: "g = fold tally_row ks []"
    using read_groups_fold by blast
  from assms(3) have mem: "Some '''' \<in> set ks" by (auto simp: ks)
  then have "map_of g (Some '''') = Some (int (count_list ks (Some '''')))"
    by (simp add: g fold_tally_map_of)
  then have "(Some '''', int (count_list ks (Some ''''))) \<in> set g"
    by (rule map_of_SomeD)
  then have "(Some '''', int (count_list (data_groups items) (Inr (Some '''')))) \<in> set its"
    using sorted_items_set [OF assms(2)] by (simp add: ks count_list_Inr)
  moreover from mem have "count_list ks (Some '''') \<noteq> 0"
    by (simp add: count_list_0_iff)
  then have "1 \<le> count_list (data_groups items) (Inr (Some ''''))"
    by (simp add: ks count_list_Inr)
  ultimately show ?thesis using run_report [OF assms(1,2)] by simp
qed

text \<open>C8 at a file with two rows of empty group and one row of group A.\<close>

theorem empty_group_counted_witness:
  "run (Some [Fields [''group'', ''id''], Fields ['''', ''1''], Fields [''A'', ''2''], Fields ['''', ''3'']]) =
     (''Groups found:'' # map format_line [(Some '''', 2), (Some ''A'', 1)], None) \<and>
   (Some '''', int (count_list (data_groups [Fields [''group'', ''id''], Fields ['''', ''1''],
       Fields [''A'', ''2''], Fields ['''', ''3'']]) (Inr (Some '''')))) \<in>
     set [(Some '''', 2), (Some ''A'', 1)] \<and>
   1 \<le> count_list (data_groups [Fields [''group'', ''id''], Fields ['''', ''1''],
       Fields [''A'', ''2''], Fields ['''', ''3'']]) (Inr (Some ''''))"
proof -
  let ?items = "[Fields [''group'', ''id''], Fields ['''', ''1''], Fields [''A'', ''2''], Fields ['''', ''3'']]"
  have pass: "read_groups ?items = Inr [(Some '''', 2), (Some ''A'', 1)]"
    by code_simp
  have sort: "sorted_items [(Some '''', 2), (Some ''A'', 1)] = Inr [(Some '''', 2), (Some ''A'', 1)]"
    by code_simp
  have mem: "Inr (Some '''') \<in> set (data_groups ?items)"
    by code_simp
  show ?thesis by (rule empty_group_counted [OF pass sort mem])
qed

subsection \<open>C9: running twice\<close>

text \<open>
  C9: the script leaves the files as they were, and a second run, started on the files the
  first run left and on the same standard output as the first, ends exactly as the first did:
  with the same lines printed and the same result.
\<close>

theorem script_repeatable:
  "files (fst (script w)) = files w \<and>
   script ((fst (script w))\<lparr>stdout := stdout w\<rparr>) = script w"
  by (simp add: script_def case_prod_beta)

text \<open>C9 in a world that holds the file of the example.\<close>

theorem script_repeatable_witness:
  "files (fst (script \<lparr>files = [csv_path \<mapsto> [Fields [''group''], Fields [''A'']]], stdout = []\<rparr>)) =
     files \<lparr>files = [csv_path \<mapsto> [Fields [''group''], Fields [''A'']]], stdout = []\<rparr> \<and>
   script ((fst (script \<lparr>files = [csv_path \<mapsto> [Fields [''group''], Fields [''A'']]], stdout = []\<rparr>))
             \<lparr>stdout := stdout \<lparr>files = [csv_path \<mapsto> [Fields [''group''], Fields [''A'']]], stdout = []\<rparr>\<rparr>) =
     script \<lparr>files = [csv_path \<mapsto> [Fields [''group''], Fields [''A'']]], stdout = []\<rparr>"
  by (rule script_repeatable)

subsection \<open>C10: no count below one\<close>

text \<open>
  C10: in a successful run (the pass gives the tally \<open>g\<close>, sorting it gives \<open>its\<close>) the group
  lines are the lines of \<open>its\<close>, and every count in \<open>its\<close> is at least 1.
\<close>

theorem counts_at_least_one:
  assumes "read_groups items = Inr g" and "sorted_items g = Inr its"
  shows "run (Some items) = (''Groups found:'' # map format_line its, None) \<and>
         (\<forall>p \<in> set its. 1 \<le> snd p)"
proof -
  from assms(1) obtain ks where g: "g = fold tally_row ks []"
    using read_groups_fold by blast
  have "\<forall>p \<in> set (fold tally_row ks []). 1 \<le> snd p"
    by (rule fold_tally_positive) simp
  then have "\<forall>p \<in> set its. 1 \<le> snd p"
    using sorted_items_set [OF assms(2)] by (simp add: g)
  with run_report [OF assms] show ?thesis by simp
qed

text \<open>C10 at a file whose groups arrive as y, x, y.\<close>

theorem counts_at_least_one_witness:
  "run (Some [Fields [''group''], Fields [''y''], Fields [''x''], Fields [''y'']]) =
     (''Groups found:'' # map format_line [(Some ''x'', 1), (Some ''y'', 2)], None) \<and>
   1 \<le> snd (Some ''x'', 1::int) \<and> 1 \<le> snd (Some ''y'', 2::int)"
proof -
  have pass: "read_groups [Fields [''group''], Fields [''y''], Fields [''x''], Fields [''y'']] =
      Inr [(Some ''y'', 2), (Some ''x'', 1)]"
    by code_simp
  have sort: "sorted_items [(Some ''y'', 2), (Some ''x'', 1)] = Inr [(Some ''x'', 1), (Some ''y'', 2)]"
    by code_simp
  from counts_at_least_one [OF pass sort] show ?thesis by simp
qed

end
